theory Spec2Isabelle
  imports Main "HOL-Library.Sublist"
begin

section \<open>The check runner of check_script_has_no_table_name.py\<close>

text \<open>
  The hook reads every file named on the command line, hands its text to the SQL grammar
  (sqlfluff) and returns a status. Everything the hook does to the outside world is kept
  as an explicit list of events, in the order the code performs them; every exception a
  collaborator may raise is a value \<open>Inl e\<close>.
\<close>

subsection \<open>Data\<close>

text \<open>
  The exceptions: \<open>JsonOpenError\<close> is the only one the source names (and catches);
  \<open>ParseError\<close> is what the grammar raises on text it cannot parse, \<open>OSError\<close> what
  reading a file raises.
\<close>

datatype exn = JsonOpenError string | ParseError string | OSError string

text \<open>
  The namespace that \<open>parser.parse_args(argv)\<close> returns: the positional file names and the
  two options this hook declares, \<open>--ignore-dotless-table\<close> (store_true) and \<open>--dialect\<close>
  (a string, "ansi" when the option is not given).
\<close>

record args =
  filenames :: "string list"
  ignore_dotless_table :: bool
  dialect :: string

text \<open>\<open>FluffConfig(overrides={"dialect": dialect, "templater": "dbt"})\<close>.\<close>

record FluffConfig =
  override_dialect :: "string option"
  override_templater :: string

text \<open>
  What a run does, in order: the text printed when the manifest cannot be loaded, each
  file read, each call of the grammar with the text and configuration it receives, the
  diagnostic printed for a file (its name and the set of tables), and the telemetry event
  with the final status.
\<close>

datatype event =
    Print string
  | Read_text string
  | Sqlfluff_parse string FluffConfig
  | Print_tables string "string set"
  | Track_hook_event int

text \<open>
  The collaborators whose code is outside this file: the manifest loader of
  \<open>dbt_checkpoint.utils\<close>, \<open>Path(filename).read_text()\<close>, \<open>sqlfluff.parse\<close> and the
  syntax tree's \<open>get_table_references\<close>. \<open>'m\<close> is the manifest, \<open>'t\<close> the parse result.
\<close>

record ('m, 't) env =
  get_dbt_manifest :: "args \<Rightarrow> exn + 'm"
  read_text :: "string \<Rightarrow> exn + string"
  sqlfluff_parse :: "string \<Rightarrow> FluffConfig \<Rightarrow> exn + 't"
  get_table_references :: "'t \<Rightarrow> string list"

subsection \<open>has_table_name\<close>

text \<open>The defaults of the two optional parameters of \<open>has_table_name\<close>.\<close>

definition dotless_default :: "bool option" where
  "dotless_default = Some False"

definition dialect_default :: "string option" where
  "dialect_default = Some ''ansi''"

text \<open>
  \<open>has_table_name(sql, filename, dotless, dialect)\<close>: builds the configuration, parses
  \<open>sql\<close> and returns \<open>status_code\<close> with the set of the tree's table references. An
  exception raised while the text is parsed is the result \<open>Inl\<close> of \<open>sqlfluff_parse\<close>
  and propagates. The second component lists the grammar calls made. Neither \<open>filename\<close>
  nor \<open>dotless\<close> occurs in the body.
  The parameter \<open>dialect\<close> is written \<open>dialect'\<close>, the plain name being the field of \<open>args\<close>.
\<close>

definition has_table_name ::
  "('m, 't) env \<Rightarrow> string \<Rightarrow> string \<Rightarrow> bool option \<Rightarrow> string option
     \<Rightarrow> (exn + int \<times> string set) \<times> event list" where
  "has_table_name env sql filename dotless dialect' =
     (let status_code = 0;
          config = \<lparr>override_dialect = dialect', override_templater = ''dbt''\<rparr>
      in case sqlfluff_parse env sql config of
           Inl e \<Rightarrow> (Inl e, [Sqlfluff_parse sql config])
         | Inr parsed_sql \<Rightarrow>
             (let table_names = set (get_table_references env parsed_sql)
              in (Inr (status_code, table_names), [Sqlfluff_parse sql config])))"

subsection \<open>main\<close>

text \<open>
  The loop \<open>for filename in args.filenames\<close>, with the running \<open>status_code\<close>. The call
  passes three arguments, so \<open>dialect\<close> takes its default. Nothing in the loop catches an
  exception: the first one ends the run.
\<close>

fun main_loop ::
  "('m, 't) env \<Rightarrow> args \<Rightarrow> string list \<Rightarrow> int \<Rightarrow> (exn + int) \<times> event list" where
  "main_loop env a [] status_code = (Inr status_code, [])"
| "main_loop env a (filename # rest) status_code =
     (case read_text env filename of
        Inl e \<Rightarrow> (Inl e, [Read_text filename])
      | Inr sql \<Rightarrow>
          (case has_table_name env sql filename (Some (ignore_dotless_table a)) dialect_default of
             (Inl e, evs) \<Rightarrow> (Inl e, Read_text filename # evs)
           | (Inr (status_code_file, tables), evs) \<Rightarrow>
               if status_code_file \<noteq> 0 then
                 (case main_loop env a rest status_code_file of
                    (r, evs') \<Rightarrow>
                      (r, Read_text filename # evs @ Print_tables filename tables # evs'))
               else
                 (case main_loop env a rest status_code of
                    (r, evs') \<Rightarrow> (r, Read_text filename # evs @ evs'))))"

text \<open>
  \<open>main\<close>, from the parsed arguments on. Only \<open>JsonOpenError\<close> is caught around the
  manifest loader. The telemetry event is sent after the loop, with the final status; the
  call is taken not to raise. The two readings of the clock only feed that event and are
  left out.
\<close>

definition main :: "('m, 't) env \<Rightarrow> args \<Rightarrow> (exn + int) \<times> event list" where
  "main env a =
     (let status_code = 0
      in case get_dbt_manifest env a of
           Inl (JsonOpenError e) \<Rightarrow>
             (Inr 1, [Print (''Unable to load manifest file ('' @ e @ '')'')])
         | Inl e \<Rightarrow> (Inl e, [])
         | Inr manifest \<Rightarrow>
             (case main_loop env a (filenames a) status_code of
                (Inl e, evs) \<Rightarrow> (Inl e, evs)
              | (Inr status_code', evs) \<Rightarrow>
                  (Inr status_code', evs @ [Track_hook_event status_code'])))"

subsection \<open>The run seen from outside\<close>

text \<open>
  One turn of the loop up to the test of \<open>status_code_file\<close>: the file is read and
  \<open>has_table_name\<close> is called as \<open>main\<close> calls it. Used to say what a file's own
  result is.
\<close>

definition file_check ::
  "('m, 't) env \<Rightarrow> args \<Rightarrow> string \<Rightarrow> (exn + int \<times> string set) \<times> event list" where
  "file_check env a filename =
     (case read_text env filename of
        Inl e \<Rightarrow> (Inl e, [Read_text filename])
      | Inr sql \<Rightarrow>
          (case has_table_name env sql filename (Some (ignore_dotless_table a)) dialect_default of
             (r, evs) \<Rightarrow> (r, Read_text filename # evs)))"

text \<open>
  The configuration \<open>has_table_name\<close> builds when \<open>dialect\<close> has its default value.
\<close>

definition ansi_config :: FluffConfig where
  "ansi_config = \<lparr>override_dialect = Some ''ansi'', override_templater = ''dbt''\<rparr>"

text \<open>The files read during a run, in order.\<close>

fun files_read :: "event list \<Rightarrow> string list" where
  "files_read [] = []"
| "files_read (Read_text filename # evs) = filename # files_read evs"
| "files_read (ev # evs) = files_read evs"

text \<open>The calls of the grammar during a run, in order: the text and the configuration.\<close>

fun grammar_calls :: "event list \<Rightarrow> (string \<times> FluffConfig) list" where
  "grammar_calls [] = []"
| "grammar_calls (Sqlfluff_parse sql config # evs) = (sql, config) # grammar_calls evs"
| "grammar_calls (ev # evs) = grammar_calls evs"

section \<open>The text normaliser\<close>

text \<open>
  The four text functions of the file. Strings are lists of characters, one for each
  character of the Python string; \<open>CHR 0x0A\<close> is the newline and \<open>CHR 0x09\<close> the tab.
\<close>

subsection \<open>replace_comments\<close>

text \<open>
  \<open>REGEX_COMMENTS\<close> is
  \<^verbatim>\<open>(?<=(\/\*|\{#))((.|[\r\n])+?)(?=(\*+\/|#\}))|[ \t]*--.*\<close>
  and \<open>replace_comments\<close> deletes every match of it, as \<open>re.sub\<close> finds them: from left
  to right, at each position the first alternative before the second, the search going
  on where a match ended. The pieces of the expression come first.
\<close>

text \<open>\<^verbatim>\<open>\**\/\<close> at the start of the text: stars, then a slash.\<close>

fun stars_slash :: "string \<Rightarrow> bool" where
  "stars_slash [] = False"
| "stars_slash (c # cs) = (c = CHR ''/'' \<or> (c = CHR ''*'' \<and> stars_slash cs))"

text \<open>The lookahead \<^verbatim>\<open>(?=(\*+\/|#\}))\<close>: the text starts with a closing delimiter.\<close>

fun closer :: "string \<Rightarrow> bool" where
  "closer (a # b # cs) =
     ((a = CHR ''*'' \<and> stars_slash (b # cs)) \<or> (a = CHR ''#'' \<and> b = CHR ''}''))"
| "closer cs = False"

text \<open>
  The lookbehind \<^verbatim>\<open>(?<=(\/\*|\{#))\<close>, on the two characters of the input that stand
  before the position.
\<close>

definition opener :: "string \<Rightarrow> bool" where
  "opener behind = (behind = ''/*'' \<or> behind = ''{#'')"

text \<open>
  The lazy body \<^verbatim>\<open>(.|[\r\n])+?\<close> takes one character and then as few more as
  possible: \<open>until_closer cs\<close> is the number of further characters up to the first
  place where a closing delimiter starts, if there is one.
\<close>

fun until_closer :: "string \<Rightarrow> nat option" where
  "until_closer [] = None"
| "until_closer (c # cs) =
     (if closer (c # cs) then Some 0 else map_option Suc (until_closer cs))"

text \<open>The second alternative matches here: blanks and tabs, then two dashes.\<close>

fun line_comment :: "string \<Rightarrow> bool" where
  "line_comment [] = False"
| "line_comment (c # cs) =
     (if c = CHR '' '' \<or> c = CHR 0x09 then line_comment cs
      else c = CHR ''-'' \<and> (case cs of [] \<Rightarrow> False | d # _ \<Rightarrow> d = CHR ''-''))"

definition last2 :: "string \<Rightarrow> string" where
  "last2 s = drop (length s - 2) s"

text \<open>
  \<open>re.sub(REGEX_COMMENTS, "", sql)\<close> from a position on: \<open>behind\<close> holds the last two
  characters of the input before the position. A match of the first alternative is the
  body alone, without the delimiters around it, and is deleted; a match of the second is
  deleted up to the end of the line (\<open>.\<close> stops at the newline); with no match the
  character is kept.
\<close>

function sub_comments :: "string \<Rightarrow> string \<Rightarrow> string" where
  "sub_comments behind [] = []"
| "sub_comments behind (c # cs) =
     (case (if opener behind then until_closer cs else None) of
        Some n \<Rightarrow> sub_comments (last2 (behind @ c # take n cs)) (drop n cs)
      | None \<Rightarrow>
          if line_comment (c # cs)
          then sub_comments (last2 (behind @ takeWhile (\<lambda>x. x \<noteq> CHR 0x0A) (c # cs)))
                 (dropWhile (\<lambda>x. x \<noteq> CHR 0x0A) cs)
          else c # sub_comments (last2 (behind @ [c])) cs)"
  by pat_completeness auto
termination
  by (relation "measure (\<lambda>(behind, s). length s)")
     (auto simp: le_imp_less_Suc length_dropWhile_le)

definition replace_comments :: "string \<Rightarrow> string" where
  "replace_comments sql = sub_comments [] sql"

subsection \<open>The padding functions\<close>

text \<open>\<open>re.sub(r"([\(\)])", r" \1 ", sql)\<close>: a blank on each side of every parenthesis.\<close>

definition add_space_to_parenthesis :: "string \<Rightarrow> string" where
  "add_space_to_parenthesis sql =
     concat (map (\<lambda>c. if c = CHR ''('' \<or> c = CHR '')'' then [CHR '' '', c, CHR '' ''] else [c]) sql)"

text \<open>\<open>re.sub(r"([\{\}])", r" \1 ", sql)\<close>: a blank on each side of every brace.\<close>

definition add_space_to_braces :: "string \<Rightarrow> string" where
  "add_space_to_braces sql =
     concat (map (\<lambda>c. if c = CHR ''{'' \<or> c = CHR ''}'' then [CHR '' '', c, CHR '' ''] else [c]) sql)"

text \<open>
  \<open>str.replace\<close> for a pattern of two characters \<open>a b\<close>: the occurrences are replaced from
  left to right, without overlap.
\<close>

fun replace2 :: "char \<Rightarrow> char \<Rightarrow> string \<Rightarrow> string \<Rightarrow> string" where
  "replace2 a b new (x # y # r) =
     (if x = a \<and> y = b then new @ replace2 a b new r else x # replace2 a b new (y # r))"
| "replace2 a b new r = r"

text \<open>\<open>sql.replace("{{", "{{ ").replace("}}", " }}")\<close>.\<close>

definition add_space_to_source_ref :: "string \<Rightarrow> string" where
  "add_space_to_source_ref sql =
     replace2 (CHR ''}'') (CHR ''}'') '' }}'' (replace2 (CHR ''{'') (CHR ''{'') ''{{ '' sql)"

text \<open>
  Modelled from the spec: the composition \<open>normalize\<close>, which the file does not define
  (it only defines the four stages and never calls them). The spec lists the stages in
  this order: comment removal, parenthesis padding, brace padding, template-delimiter
  padding.
\<close>

definition normalize :: "string \<Rightarrow> string" where
  "normalize sql =
     add_space_to_source_ref (add_space_to_braces (add_space_to_parenthesis (replace_comments sql)))"

section \<open>Stand-ins for the collaborators\<close>

text \<open>
  A small file system and a small grammar, to run the hook on concrete inputs. The
  grammar stand-in answers as the spec expects of the SQL grammar: the table references of
  \<open>SELECT * FROM raw.orders\<close> are \<open>raw.orders\<close>, a statement with an unbalanced parenthesis
  does not parse. A parse result is represented by the list of its table references.
\<close>

definition stub_read_text :: "string \<Rightarrow> exn + string" where
  "stub_read_text filename =
     (if filename = ''orders.sql'' then Inr ''SELECT * FROM raw.orders''
      else if filename = ''dotless.sql'' then Inr ''SELECT * FROM orders''
      else if filename = ''clean.sql'' then Inr ''SELECT 1''
      else if filename = ''count.sql'' then Inr ''SELECT count(*) FROM t''
      else if filename = ''broken.sql'' then Inr ''SELECT (''
      else Inl (OSError ''No such file or directory''))"

definition stub_parse :: "string \<Rightarrow> FluffConfig \<Rightarrow> exn + string list" where
  "stub_parse sql config =
     (if sql = ''SELECT * FROM raw.orders'' then Inr [''raw.orders'']
      else if sql = ''SELECT * FROM orders'' then Inr [''orders'']
      else if sql = ''SELECT count(*) FROM t'' then Inr [''t'']
      else if sql = ''SELECT ('' then Inl (ParseError ''unbalanced parenthesis'')
      else Inr [])"

definition stub_env :: "(unit, string list) env" where
  "stub_env =
     \<lparr>get_dbt_manifest = (\<lambda>a. Inr ()),
      read_text = stub_read_text,
      sqlfluff_parse = stub_parse,
      get_table_references = (\<lambda>tree. tree)\<rparr>"

definition stub_env_no_manifest :: "(unit, string list) env" where
  "stub_env_no_manifest =
     stub_env\<lparr>get_dbt_manifest := (\<lambda>a. Inl (JsonOpenError ''No such file or directory''))\<rparr>"


section \<open>The loop of main, file by file\<close>

text \<open>
  \<open>has_table_name\<close> sets \<open>status_code\<close> to 0 and never assigns it again, so the status
  it returns is 0 whatever the set of tables is.
\<close>

lemma has_table_name_status:
  "has_table_name env sql filename dotless d = (Inr (sc, T), evs) \<Longrightarrow> sc = 0"
  by (auto simp: has_table_name_def Let_def split: sum.splits)

lemma has_table_name_ignores_dotless:
  "has_table_name env sql filename dotless1 d = has_table_name env sql filename dotless2 d"
  by (simp add: has_table_name_def)

text \<open>
  Hence one turn of the loop either ends the run with the exception of \<open>file_check\<close> or
  goes on with the running status unchanged; the diagnostic is not printed.
\<close>

lemma main_loop_step:
  "main_loop env a (f # fs) st =
     (case file_check env a f of
        (Inl e, evs) \<Rightarrow> (Inl e, evs)
      | (Inr r, evs) \<Rightarrow>
          (case main_loop env a fs st of (r', evs') \<Rightarrow> (r', evs @ evs')))"
  by (auto simp: file_check_def split: sum.splits prod.splits dest: has_table_name_status)

lemma not_isl_file_check:
  "\<not> isl (fst (file_check env a f)) \<Longrightarrow> \<exists>r evs. file_check env a f = (Inr r, evs)"
  by (cases "file_check env a f"; cases "fst (file_check env a f)") auto

text \<open>A loop over files that all read and parse: the status is kept, every file is checked.\<close>

lemma main_loop_ok:
  "\<forall>f\<in>set fs. \<not> isl (fst (file_check env a f))
   \<Longrightarrow> main_loop env a fs st = (Inr st, concat (map (\<lambda>f. snd (file_check env a f)) fs))"
proof (induction fs)
  case Nil
  show ?case by simp
next
  case (Cons f fs)
  from Cons.prems obtain r evs where fc: "file_check env a f = (Inr r, evs)"
    using not_isl_file_check[of env a f] by auto
  from Cons have ih: "main_loop env a fs st = (Inr st, concat (map (\<lambda>f. snd (file_check env a f)) fs))"
    by simp
  show ?case
    by (simp add: main_loop_step fc ih del: main_loop.simps)
qed

text \<open>A loop that meets a failing file: the exception ends it there.\<close>

lemma main_loop_raise:
  "\<forall>g\<in>set pre. \<not> isl (fst (file_check env a g)) \<Longrightarrow> fst (file_check env a f) = Inl e
   \<Longrightarrow> main_loop env a (pre @ f # post) st
         = (Inl e, concat (map (\<lambda>g. snd (file_check env a g)) (pre @ [f])))"
proof (induction pre)
  case Nil
  then show ?case
    by (cases "file_check env a f") (simp add: main_loop_step del: main_loop.simps)
next
  case (Cons g pre)
  from Cons.prems obtain r evs where fc: "file_check env a g = (Inr r, evs)"
    using not_isl_file_check[of env a g] by auto
  from Cons have ih: "main_loop env a (pre @ f # post) st
         = (Inl e, concat (map (\<lambda>g. snd (file_check env a g)) (pre @ [f])))"
    by simp
  show ?case
    by (simp add: main_loop_step fc ih del: main_loop.simps)
qed

lemma main_loop_cases:
  "(\<forall>f\<in>set fs. \<not> isl (fst (file_check env a f)))
   \<or> (\<exists>pre f post e. fs = pre @ f # post \<and> (\<forall>g\<in>set pre. \<not> isl (fst (file_check env a g)))
         \<and> fst (file_check env a f) = Inl e)"
proof (cases "\<exists>f\<in>set fs. isl (fst (file_check env a f))")
  case True
  then obtain pre f post where "fs = pre @ f # post" "isl (fst (file_check env a f))"
      "\<forall>g\<in>set pre. \<not> isl (fst (file_check env a g))"
    using split_list_first_prop[of fs "\<lambda>f. isl (fst (file_check env a f))"] by blast
  then show ?thesis by (auto simp: isl_def)
next
  case False
  then show ?thesis by blast
qed

text \<open>Reading the trace.\<close>

lemma files_read_append: "files_read (xs @ ys) = files_read xs @ files_read ys"
  by (induction xs rule: files_read.induct) simp_all

lemma grammar_calls_append: "grammar_calls (xs @ ys) = grammar_calls xs @ grammar_calls ys"
  by (induction xs rule: grammar_calls.induct) simp_all

lemma files_read_file_check: "files_read (snd (file_check env a f)) = [f]"
  by (simp add: file_check_def has_table_name_def Let_def split: sum.splits)

lemma files_read_checks:
  "files_read (concat (map (\<lambda>g. snd (file_check env a g)) fs)) = fs"
  by (induction fs) (simp_all add: files_read_append files_read_file_check)

lemma grammar_calls_file_check:
  "map (\<lambda>c. Inr (fst c)) (grammar_calls (snd (file_check env a f)))
     = (if isl (read_text env f) then [] else [read_text env f])"
  by (simp add: file_check_def has_table_name_def Let_def split: sum.splits)

lemma read_ok_if_check_ok:
  "\<not> isl (fst (file_check env a f)) \<Longrightarrow> \<not> isl (read_text env f)"
  by (auto simp: file_check_def split: sum.splits)

lemma grammar_calls_checks:
  "\<forall>g\<in>set fs. \<not> isl (fst (file_check env a g))
   \<Longrightarrow> map (\<lambda>c. Inr (fst c)) (grammar_calls (concat (map (\<lambda>g. snd (file_check env a g)) fs)))
         = map (read_text env) fs"
proof (induction fs)
  case Nil
  show ?case by simp
next
  case (Cons f fs)
  from Cons.prems have "\<not> isl (read_text env f)"
    using read_ok_if_check_ok[of env a f] by simp
  with Cons show ?case
    by (simp add: grammar_calls_append grammar_calls_file_check)
qed

text \<open>The three ways a run of \<open>main\<close> can go.\<close>

lemma main_trace_cases:
  "(\<exists>cause. get_dbt_manifest env a = Inl cause \<and> grammar_calls (snd (main env a)) = [])
   \<or> (\<exists>m. get_dbt_manifest env a = Inr m \<and> fst (main env a) = Inr 0
          \<and> (\<forall>g\<in>set (filenames a). \<not> isl (fst (file_check env a g)))
          \<and> snd (main env a) = concat (map (\<lambda>g. snd (file_check env a g)) (filenames a))
                                  @ [Track_hook_event 0])
   \<or> (\<exists>m pre f post e. get_dbt_manifest env a = Inr m \<and> filenames a = pre @ f # post
          \<and> (\<forall>g\<in>set pre. \<not> isl (fst (file_check env a g)))
          \<and> fst (file_check env a f) = Inl e
          \<and> main env a = (Inl e, concat (map (\<lambda>g. snd (file_check env a g)) (pre @ [f]))))"
proof (cases "get_dbt_manifest env a")
  case (Inl cause)
  then show ?thesis by (cases cause) (simp_all add: main_def)
next
  case (Inr m)
  from main_loop_cases[of "filenames a" env a] show ?thesis
  proof
    assume ok: "\<forall>f\<in>set (filenames a). \<not> isl (fst (file_check env a f))"
    from main_loop_ok[OF this, of 0] show ?thesis
      using Inr ok by (simp add: main_def)
  next
    assume "\<exists>pre f post e. filenames a = pre @ f # post
        \<and> (\<forall>g\<in>set pre. \<not> isl (fst (file_check env a g))) \<and> fst (file_check env a f) = Inl e"
    then obtain pre f post e where d: "filenames a = pre @ f # post"
        "\<forall>g\<in>set pre. \<not> isl (fst (file_check env a g))" "fst (file_check env a f) = Inl e"
      by blast
    from main_loop_raise[OF d(2,3), of post 0] d(1)
    have "main env a = (Inl e, concat (map (\<lambda>g. snd (file_check env a g)) (pre @ [f])))"
      using Inr by (simp add: main_def)
    with Inr d show ?thesis by blast
  qed
qed

text \<open>
  Two consequences: a run that returns after the loop returns 0, and every call of the
  grammar is configured for "ansi", whatever \<open>args.dialect\<close> is.
\<close>

lemma main_status_is_0:
  "get_dbt_manifest env a = Inr m \<Longrightarrow> fst (main env a) = Inr s \<Longrightarrow> s = 0"
  using main_trace_cases[of env a] by auto

lemma file_check_config:
  "(sql, config) \<in> set (grammar_calls (snd (file_check env a f))) \<Longrightarrow> config = ansi_config"
  by (auto simp: file_check_def has_table_name_def dialect_default_def ansi_config_def Let_def
      split: sum.splits)

lemma checks_config:
  "(sql, config) \<in> set (grammar_calls (concat (map (\<lambda>g. snd (file_check env a g)) fs)))
   \<Longrightarrow> config = ansi_config"
  by (induction fs) (auto simp: grammar_calls_append dest: file_check_config)

lemma main_config_is_ansi:
  "(sql, config) \<in> set (grammar_calls (snd (main env a))) \<Longrightarrow> config = ansi_config"
  using main_trace_cases[of env a]
  by (auto simp: grammar_calls_append intro: checks_config file_check_config)

text \<open>No run of \<open>main\<close> prints the diagnostic of a file.\<close>

lemma file_check_no_print: "Print_tables f T \<notin> set (snd (file_check env a g))"
  by (simp add: file_check_def has_table_name_def Let_def split: sum.splits)

lemma main_loop_no_print: "Print_tables f T \<notin> set (snd (main_loop env a fs st))"
proof (induction fs)
  case Nil
  show ?case by simp
next
  case (Cons g fs)
  then show ?case
    using file_check_no_print[of f T env a g]
    by (simp only: main_loop_step) (auto split: prod.splits sum.splits)
qed

lemma main_no_print: "Print_tables f T \<notin> set (snd (main env a))"
proof (cases "get_dbt_manifest env a")
  case (Inl cause)
  then show ?thesis by (cases cause) (simp_all add: main_def)
next
  case (Inr m)
  then show ?thesis
    using main_loop_no_print[of f T env a "filenames a" 0]
    by (auto simp: main_def split: prod.splits sum.splits)
qed

section \<open>Facts about comment removal\<close>

text \<open>The three cases of \<open>sub_comments\<close> at a character, as equations.\<close>

lemma sub_comments_block:
  "(if opener b then until_closer cs else None) = Some n
   \<Longrightarrow> sub_comments b (c # cs) = sub_comments (last2 (b @ c # take n cs)) (drop n cs)"
  by (subst sub_comments.simps) simp

lemma sub_comments_line:
  "(if opener b then until_closer cs else None) = None \<Longrightarrow> line_comment (c # cs)
   \<Longrightarrow> sub_comments b (c # cs)
         = sub_comments (last2 (b @ takeWhile (\<lambda>x. x \<noteq> CHR 0x0A) (c # cs)))
             (dropWhile (\<lambda>x. x \<noteq> CHR 0x0A) cs)"
  by (subst sub_comments.simps) (simp del: line_comment.simps takeWhile.simps)

lemma sub_comments_keep:
  "(if opener b then until_closer cs else None) = None \<Longrightarrow> \<not> line_comment (c # cs)
   \<Longrightarrow> sub_comments b (c # cs) = c # sub_comments (last2 (b @ [c])) cs"
  by (subst sub_comments.simps) (simp del: line_comment.simps)

text \<open>What the pieces of the expression say about the text they match.\<close>

lemma closer_first:
  "closer s \<Longrightarrow> \<exists>a r. s = a # r \<and> (a = CHR ''*'' \<or> a = CHR ''#'')"
  by (induction s rule: closer.induct) auto

lemma until_closer_Some:
  "until_closer cs = Some n \<Longrightarrow> closer (drop n cs)"
proof (induction cs arbitrary: n)
  case Nil
  then show ?case by simp
next
  case (Cons c cs)
  show ?case
  proof (cases "closer (c # cs)")
    case True
    with Cons.prems show ?thesis by simp
  next
    case False
    with Cons.prems obtain k where "until_closer cs = Some k" "n = Suc k"
      by auto
    with Cons.IH show ?thesis by simp
  qed
qed

lemma line_comment_dashes:
  "line_comment s \<Longrightarrow> sublist ''--'' s"
proof (induction s)
  case Nil
  then show ?case by simp
next
  case (Cons c cs)
  show ?case
  proof (cases "c = CHR '' '' \<or> c = CHR 0x09")
    case True
    with Cons have "sublist ''--'' cs" by auto
    then show ?thesis by (simp add: sublist_Cons_right)
  next
    case False
    with Cons.prems obtain r where "c = CHR ''-''" "cs = CHR ''-'' # r"
      by (auto split: list.splits)
    then show ?thesis by (simp add: sublist_Cons_right)
  qed
qed

lemma line_comment_first: "line_comment (c # cs) \<Longrightarrow> c \<noteq> CHR 0x0A"
  by (auto split: if_splits)

lemma dropWhile_head:
  "dropWhile (\<lambda>x. x \<noteq> y) cs = x # r \<Longrightarrow> x = y"
  by (simp add: dropWhile_eq_Cons_conv)

lemma prefix_pair:
  "prefix [a, b] (c # out) \<Longrightarrow> c = a \<and> (\<exists>r. out = b # r)"
  by (cases out) auto

text \<open>
  After a match the text goes on with a newline (second alternative) or with the closing
  delimiter (first alternative). So a first character of the output other than a newline,
  a star or a hash is the first character of the input.
\<close>

lemma sub_comments_head:
  "sub_comments b s = x # r \<Longrightarrow> x \<noteq> CHR 0x0A \<Longrightarrow> x \<noteq> CHR ''*'' \<Longrightarrow> x \<noteq> CHR ''#''
   \<Longrightarrow> \<exists>s'. s = x # s'"
proof (induction b s rule: sub_comments.induct)
  case (1 b)
  then show ?case by simp
next
  case (2 b c cs)
  show ?case
  proof (cases "if opener b then until_closer cs else None")
    case (Some n)
    then have "until_closer cs = Some n" by (simp split: if_splits)
    then have "closer (drop n cs)" by (rule until_closer_Some)
    moreover have "sub_comments (last2 (b @ c # take n cs)) (drop n cs) = x # r"
      using "2.prems"(1) unfolding sub_comments_block[OF Some] .
    then have "\<exists>s'. drop n cs = x # s'"
      by (rule "2.IH"(3)[OF Some _ "2.prems"(2,3,4)])
    ultimately show ?thesis using "2.prems"(3,4) by (auto dest: closer_first)
  next
    case None
    show ?thesis
    proof (cases "line_comment (c # cs)")
      case True
      have "sub_comments (last2 (b @ takeWhile (\<lambda>x. x \<noteq> CHR 0x0A) (c # cs)))
              (dropWhile (\<lambda>x. x \<noteq> CHR 0x0A) cs) = x # r"
        using "2.prems"(1) unfolding sub_comments_line[OF None True] .
      then have "\<exists>s'. dropWhile (\<lambda>x. x \<noteq> CHR 0x0A) cs = x # s'"
        by (rule "2.IH"(1)[OF None True _ "2.prems"(2,3,4)])
      with "2.prems"(2) show ?thesis by (auto dest: dropWhile_head)
    next
      case False
      have "c # sub_comments (last2 (b @ [c])) cs = x # r"
        using "2.prems"(1) unfolding sub_comments_keep[OF None False] .
      then show ?thesis by simp
    qed
  qed
qed

lemma sub_comments_no_dashes: "\<not> sublist ''--'' (sub_comments b s)"
proof (induction b s rule: sub_comments.induct)
  case (1 b)
  show ?case by simp
next
  case (2 b c cs)
  show ?case
  proof (cases "if opener b then until_closer cs else None")
    case (Some n)
    show ?thesis unfolding sub_comments_block[OF Some] by (rule "2.IH"(3)[OF Some])
  next
    case None
    show ?thesis
    proof (cases "line_comment (c # cs)")
      case True
      show ?thesis unfolding sub_comments_line[OF None True] by (rule "2.IH"(1)[OF None True])
    next
      case False
      let ?out = "sub_comments (last2 (b @ [c])) cs"
      have ih: "\<not> sublist ''--'' ?out" by (rule "2.IH"(2)[OF None False])
      have "\<not> prefix ''--'' (c # ?out)"
      proof
        assume "prefix ''--'' (c # ?out)"
        then have "c = CHR ''-'' \<and> (\<exists>r. ?out = CHR ''-'' # r)"
          by (rule prefix_pair)
        then obtain r where c: "c = CHR ''-''" and out: "?out = CHR ''-'' # r"
          by blast
        from sub_comments_head[OF out] obtain s' where "cs = CHR ''-'' # s'" by auto
        with c False show False by simp
      qed
      with ih have "\<not> sublist ''--'' (c # ?out)" by (simp add: sublist_Cons_right)
      then show ?thesis unfolding sub_comments_keep[OF None False] .
    qed
  qed
qed

lemma sub_comments_subseq: "subseq (sub_comments b s) s"
proof (induction b s rule: sub_comments.induct)
  case (1 b)
  show ?case by simp
next
  case (2 b c cs)
  show ?case
  proof (cases "if opener b then until_closer cs else None")
    case (Some n)
    have "subseq (sub_comments b (c # cs)) (drop n cs)"
      unfolding sub_comments_block[OF Some] by (rule "2.IH"(3)[OF Some])
    moreover have "subseq (drop n cs) (c # cs)"
      using suffix_drop[of n cs] by (auto intro: suffix_imp_subseq)
    ultimately show ?thesis by (rule subseq_order.trans)
  next
    case None
    show ?thesis
    proof (cases "line_comment (c # cs)")
      case True
      have "subseq (sub_comments b (c # cs)) (dropWhile (\<lambda>x. x \<noteq> CHR 0x0A) cs)"
        unfolding sub_comments_line[OF None True] by (rule "2.IH"(1)[OF None True])
      moreover have "subseq (dropWhile (\<lambda>x. x \<noteq> CHR 0x0A) cs) (c # cs)"
        using suffix_dropWhile[of "\<lambda>x. x \<noteq> CHR 0x0A" cs] by (auto intro: suffix_imp_subseq)
      ultimately show ?thesis by (rule subseq_order.trans)
    next
      case False
      show ?thesis unfolding sub_comments_keep[OF None False]
        by (rule subseq_Cons2) (rule "2.IH"(2)[OF None False])
    qed
  qed
qed

lemma replace_comments_set: "set (replace_comments s) \<subseteq> set s"
  using sub_comments_subseq[of "[]" s] unfolding replace_comments_def
  by (auto dest: list_emb_set)

subsection \<open>Text without an opening delimiter\<close>

text \<open>
  With no \<open>/*\<close> and no brace in the input the lookbehind never holds, and this stays so
  along the scan: the text still to be read, with the two characters behind it, is a
  suffix of the input.
\<close>

lemma suffix_last2: "suffix (last2 x @ y) (x @ y)"
  by (simp add: last2_def suffix_drop)

lemma sublist_of_suffix:
  assumes "sublist p t" "suffix t u"
  shows "sublist p u"
proof -
  from assms obtain ps ss zs where "t = ps @ p @ ss" "u = zs @ t"
    by (auto simp: sublist_def suffix_def)
  then have "u = (zs @ ps) @ p @ ss" by simp
  then show ?thesis unfolding sublist_def by blast
qed

lemma no_opener_step:
  assumes "\<not> sublist ''/*'' (b @ s)" "CHR ''{'' \<notin> set (b @ s)" "suffix (b' @ s') (b @ s)"
  shows "\<not> sublist ''/*'' (b' @ s')" "CHR ''{'' \<notin> set (b' @ s')"
proof -
  show "\<not> sublist ''/*'' (b' @ s')"
    using assms(1,3) sublist_of_suffix by blast
  show "CHR ''{'' \<notin> set (b' @ s')"
    using assms(2) set_mono_suffix[OF assms(3)] by blast
qed

lemma no_opener_None:
  assumes "\<not> sublist ''/*'' (b @ s)" "CHR ''{'' \<notin> set (b @ s)"
  shows "(if opener b then until_closer cs else None) = None"
proof -
  have "\<not> opener b"
  proof
    assume "opener b"
    then consider "b = ''/*''" | "b = ''{#''" by (auto simp: opener_def)
    then show False
    proof cases
      case 1
      then have "sublist ''/*'' (b @ s)" by simp
      with assms(1) show False by simp
    next
      case 2
      with assms(2) show False by simp
    qed
  qed
  then show ?thesis by simp
qed

lemma keep_suffix: "suffix (last2 (b @ [c]) @ cs) (b @ c # cs)"
  using suffix_last2[of "b @ [c]" cs] by simp

lemma line_suffix:
  assumes "line_comment (c # cs)"
  shows "suffix (last2 (b @ takeWhile (\<lambda>x. x \<noteq> CHR 0x0A) (c # cs)) @ dropWhile (\<lambda>x. x \<noteq> CHR 0x0A) cs)
           (b @ c # cs)"
proof -
  have "c \<noteq> CHR 0x0A" using assms by (rule line_comment_first)
  then have "takeWhile (\<lambda>x. x \<noteq> CHR 0x0A) (c # cs) @ dropWhile (\<lambda>x. x \<noteq> CHR 0x0A) cs = c # cs"
    by simp
  then show ?thesis
    using suffix_last2[of "b @ takeWhile (\<lambda>x. x \<noteq> CHR 0x0A) (c # cs)" "dropWhile (\<lambda>x. x \<noteq> CHR 0x0A) cs"]
    by simp
qed

lemma sub_comments_head_plain:
  "sub_comments b s = x # r \<Longrightarrow> \<not> sublist ''/*'' (b @ s) \<Longrightarrow> CHR ''{'' \<notin> set (b @ s)
   \<Longrightarrow> x \<noteq> CHR 0x0A \<Longrightarrow> \<exists>s'. s = x # s'"
proof (induction b s rule: sub_comments.induct)
  case (1 b)
  then show ?case by simp
next
  case (2 b c cs)
  have None: "(if opener b then until_closer cs else None) = None"
    using "2.prems"(2,3) by (rule no_opener_None)
  show ?case
  proof (cases "line_comment (c # cs)")
    case True
    note inv = no_opener_step[OF "2.prems"(2,3) line_suffix[OF True]]
    have "sub_comments (last2 (b @ takeWhile (\<lambda>x. x \<noteq> CHR 0x0A) (c # cs)))
            (dropWhile (\<lambda>x. x \<noteq> CHR 0x0A) cs) = x # r"
      using "2.prems"(1) unfolding sub_comments_line[OF None True] .
    then have "\<exists>s'. dropWhile (\<lambda>x. x \<noteq> CHR 0x0A) cs = x # s'"
      by (rule "2.IH"(1)[OF None True _ inv "2.prems"(4)])
    with "2.prems"(4) show ?thesis by (auto dest: dropWhile_head)
  next
    case False
    have "c # sub_comments (last2 (b @ [c])) cs = x # r"
      using "2.prems"(1) unfolding sub_comments_keep[OF None False] .
    then show ?thesis by simp
  qed
qed

lemma sub_comments_no_block:
  "\<not> sublist ''/*'' (b @ s) \<Longrightarrow> CHR ''{'' \<notin> set (b @ s)
   \<Longrightarrow> \<not> sublist ''/*'' (sub_comments b s)"
proof (induction b s rule: sub_comments.induct)
  case (1 b)
  show ?case by simp
next
  case (2 b c cs)
  have None: "(if opener b then until_closer cs else None) = None"
    using "2.prems" by (rule no_opener_None)
  show ?case
  proof (cases "line_comment (c # cs)")
    case True
    note inv = no_opener_step[OF "2.prems" line_suffix[OF True]]
    show ?thesis unfolding sub_comments_line[OF None True]
      by (rule "2.IH"(1)[OF None True inv])
  next
    case False
    note inv = no_opener_step[OF "2.prems" keep_suffix]
    let ?out = "sub_comments (last2 (b @ [c])) cs"
    have ih: "\<not> sublist ''/*'' ?out" by (rule "2.IH"(2)[OF None False inv])
    have "\<not> prefix ''/*'' (c # ?out)"
    proof
      assume "prefix ''/*'' (c # ?out)"
      then have "c = CHR ''/'' \<and> (\<exists>r. ?out = CHR ''*'' # r)"
        by (rule prefix_pair)
      then obtain r where c: "c = CHR ''/''" and out: "?out = CHR ''*'' # r"
        by blast
      from sub_comments_head_plain[OF out inv] obtain s' where "cs = CHR ''*'' # s'" by auto
      with c have "b @ c # cs = b @ ''/*'' @ s'" by simp
      then have "sublist ''/*'' (b @ c # cs)" by (simp only: sublist_appendI)
      with "2.prems"(1) show False by simp
    qed
    with ih have "\<not> sublist ''/*'' (c # ?out)" by (simp add: sublist_Cons_right)
    then show ?thesis unfolding sub_comments_keep[OF None False] .
  qed
qed

lemma sub_comments_plain_id:
  "\<not> sublist ''/*'' (b @ s) \<Longrightarrow> CHR ''{'' \<notin> set (b @ s) \<Longrightarrow> \<not> sublist ''--'' s
   \<Longrightarrow> sub_comments b s = s"
proof (induction b s rule: sub_comments.induct)
  case (1 b)
  show ?case by simp
next
  case (2 b c cs)
  have None: "(if opener b then until_closer cs else None) = None"
    using "2.prems"(1,2) by (rule no_opener_None)
  have False: "\<not> line_comment (c # cs)"
    using "2.prems"(3) line_comment_dashes by blast
  note inv = no_opener_step[OF "2.prems"(1,2) keep_suffix]
  have "\<not> sublist ''--'' cs" using "2.prems"(3) by (simp add: sublist_Cons_right)
  then have "sub_comments (last2 (b @ [c])) cs = cs"
    by (rule "2.IH"(2)[OF None False inv])
  then show ?case unfolding sub_comments_keep[OF None False] by simp
qed

subsection \<open>Padding text that has nothing to pad\<close>

lemma add_space_to_parenthesis_id:
  "CHR ''('' \<notin> set t \<Longrightarrow> CHR '')'' \<notin> set t \<Longrightarrow> add_space_to_parenthesis t = t"
  unfolding add_space_to_parenthesis_def by (induction t) auto

lemma add_space_to_braces_id:
  "CHR ''{'' \<notin> set t \<Longrightarrow> CHR ''}'' \<notin> set t \<Longrightarrow> add_space_to_braces t = t"
  unfolding add_space_to_braces_def by (induction t) auto

lemma replace2_id: "a \<notin> set t \<Longrightarrow> replace2 a b new t = t"
  by (induction a b new t rule: replace2.induct) auto

lemma add_space_to_source_ref_id:
  "CHR ''{'' \<notin> set t \<Longrightarrow> CHR ''}'' \<notin> set t \<Longrightarrow> add_space_to_source_ref t = t"
  by (simp add: add_space_to_source_ref_def replace2_id)

lemma normalize_plain:
  assumes "CHR ''('' \<notin> set s" "CHR '')'' \<notin> set s" "CHR ''{'' \<notin> set s" "CHR ''}'' \<notin> set s"
  shows "normalize s = replace_comments s"
proof -
  have "CHR ''('' \<notin> set (replace_comments s)" "CHR '')'' \<notin> set (replace_comments s)"
       "CHR ''{'' \<notin> set (replace_comments s)" "CHR ''}'' \<notin> set (replace_comments s)"
    using assms replace_comments_set[of s] by blast+
  then show ?thesis
    by (simp add: normalize_def add_space_to_parenthesis_id add_space_to_braces_id
        add_space_to_source_ref_id)
qed

section \<open>Unfolding the definitions on concrete inputs\<close>

lemmas stub_defs = stub_env_def stub_env_no_manifest_def stub_read_text_def stub_parse_def
  ansi_config_def dialect_default_def has_table_name_def file_check_def main_def

lemmas norm_defs = normalize_def replace_comments_def add_space_to_parenthesis_def
  add_space_to_braces_def add_space_to_source_ref_def opener_def last2_def

section \<open>The claims\<close>

subsection \<open>C1: the overall status\<close>

text \<open>
  C1 says that, once the manifest is loaded, the status \<open>main\<close> returns is non-zero exactly
  when some file has a non-empty set of bare tables or raised a parse error. The code does
  not turn a parse error into a status: nothing catches it, so \<open>main\<close> raises and returns
  no status at all. And a file with a table in its set leaves the status at 0.
\<close>

theorem main_status_counterexample:
  "fst (main stub_env \<lparr>filenames = [''broken.sql''], ignore_dotless_table = False, dialect = ''ansi''\<rparr>)
     = Inl (ParseError ''unbalanced parenthesis'')
   \<and> fst (file_check stub_env \<lparr>filenames = [''orders.sql''], ignore_dotless_table = False, dialect = ''ansi''\<rparr> ''orders.sql'')
     = Inr (0, {''raw.orders''})
   \<and> fst (main stub_env \<lparr>filenames = [''orders.sql''], ignore_dotless_table = False, dialect = ''ansi''\<rparr>)
     = Inr 0"
  by (simp add: stub_defs)

text \<open>
  C1, amended: when the manifest is loaded, \<open>main\<close> returns status 0 if every file is clean
  (it is read and parsed without an exception and its set of tables is empty); and if
  reading or parsing some file raises, \<open>main\<close> raises as well and returns no status.
\<close>

theorem main_status_clean_or_raise:
  assumes "get_dbt_manifest env a = Inr m"
  shows "((\<forall>f\<in>set (filenames a). \<exists>sc. fst (file_check env a f) = Inr (sc, {}))
            \<longrightarrow> fst (main env a) = Inr 0)
       \<and> ((\<exists>f\<in>set (filenames a). isl (fst (file_check env a f)))
            \<longrightarrow> isl (fst (main env a)))"
proof (intro conjI impI)
  assume "\<forall>f\<in>set (filenames a). \<exists>sc. fst (file_check env a f) = Inr (sc, {})"
  then have "\<forall>f\<in>set (filenames a). \<not> isl (fst (file_check env a f))" by auto
  from main_loop_ok[OF this] show "fst (main env a) = Inr 0"
    using assms by (simp add: main_def)
next
  assume "\<exists>f\<in>set (filenames a). isl (fst (file_check env a f))"
  then obtain pre f post e where "filenames a = pre @ f # post"
      "\<forall>g\<in>set pre. \<not> isl (fst (file_check env a g))" "fst (file_check env a f) = Inl e"
    using main_loop_cases[of "filenames a" env a] by auto
  from main_loop_raise[OF this(2,3), of post 0] this(1) show "isl (fst (main env a))"
    using assms by (simp add: main_def)
qed

theorem main_status_clean_or_raise_witness:
  "fst (main stub_env \<lparr>filenames = [''clean.sql'', ''clean.sql''], ignore_dotless_table = False, dialect = ''ansi''\<rparr>) = Inr 0
   \<and> isl (fst (main stub_env \<lparr>filenames = [''clean.sql'', ''broken.sql''], ignore_dotless_table = False, dialect = ''ansi''\<rparr>))"
  using main_status_clean_or_raise
      [of stub_env "\<lparr>filenames = [''clean.sql'', ''clean.sql''], ignore_dotless_table = False, dialect = ''ansi''\<rparr>" "()"]
    main_status_clean_or_raise
      [of stub_env "\<lparr>filenames = [''clean.sql'', ''broken.sql''], ignore_dotless_table = False, dialect = ''ansi''\<rparr>" "()"]
  by (simp add: stub_env_def stub_read_text_def stub_parse_def dialect_default_def
      has_table_name_def file_check_def)

subsection \<open>C2: a file that names a table\<close>

text \<open>
  C2: for the single file \<open>SELECT * FROM raw.orders\<close> the check finds the set
  \<open>{raw.orders}\<close> and the run's status is non-zero. On the code the set is found, but the
  run reads the file, parses it, prints nothing and returns 0.
\<close>

theorem bare_table_run_returns_0:
  "fst (has_table_name stub_env ''SELECT * FROM raw.orders'' ''orders.sql'' (Some False) dialect_default)
     = Inr (0, {''raw.orders''})
   \<and> main stub_env \<lparr>filenames = [''orders.sql''], ignore_dotless_table = False, dialect = ''ansi''\<rparr>
     = (Inr 0,
        [Read_text ''orders.sql'',
         Sqlfluff_parse ''SELECT * FROM raw.orders''
           \<lparr>override_dialect = Some ''ansi'', override_templater = ''dbt''\<rparr>,
         Track_hook_event 0])"
  by (simp add: stub_defs)

subsection \<open>C3: a parse failure in a batch\<close>

text \<open>
  C3 says that a parse failure on one file is caught, the remaining files are still
  checked and the overall status is non-zero. On the code, with three files of which the
  second does not parse, the run ends at the second file with its exception: the third
  file is never read and no status is returned.
\<close>

theorem parse_failure_counterexample:
  "main stub_env \<lparr>filenames = [''clean.sql'', ''broken.sql'', ''orders.sql''], ignore_dotless_table = False, dialect = ''ansi''\<rparr>
     = (Inl (ParseError ''unbalanced parenthesis''),
        [Read_text ''clean.sql'',
         Sqlfluff_parse ''SELECT 1'' \<lparr>override_dialect = Some ''ansi'', override_templater = ''dbt''\<rparr>,
         Read_text ''broken.sql'',
         Sqlfluff_parse ''SELECT ('' \<lparr>override_dialect = Some ''ansi'', override_templater = ''dbt''\<rparr>])"
  by (simp add: stub_defs)

text \<open>
  C3, amended: a parse failure on a file is not caught. When the files before it are read
  and parsed without an exception, \<open>main\<close> raises the parse error of that file and returns
  no status; the files read are those before it and the file itself, and none after it.
\<close>

theorem parse_failure_ends_run:
  assumes "get_dbt_manifest env a = Inr m"
    and "filenames a = pre @ f # post"
    and "\<forall>g\<in>set pre. \<not> isl (fst (file_check env a g))"
    and "read_text env f = Inr sql"
    and "sqlfluff_parse env sql ansi_config = Inl e"
  shows "fst (main env a) = Inl e \<and> files_read (snd (main env a)) = pre @ [f]"
proof -
  have "fst (file_check env a f) = Inl e"
    using assms(4,5)
    by (simp add: file_check_def has_table_name_def dialect_default_def ansi_config_def)
  from main_loop_raise[OF assms(3) this, of post 0]
  have "main_loop env a (filenames a) 0
          = (Inl e, concat (map (\<lambda>g. snd (file_check env a g)) (pre @ [f])))"
    by (simp add: assms(2))
  then have "main env a = (Inl e, concat (map (\<lambda>g. snd (file_check env a g)) (pre @ [f])))"
    using assms(1) by (simp add: main_def)
  then show ?thesis
    using files_read_checks[of env a "pre @ [f]"] by simp
qed

theorem parse_failure_ends_run_witness:
  "fst (main stub_env \<lparr>filenames = [''clean.sql'', ''broken.sql'', ''orders.sql''], ignore_dotless_table = False, dialect = ''ansi''\<rparr>)
     = Inl (ParseError ''unbalanced parenthesis'')
   \<and> files_read (snd (main stub_env \<lparr>filenames = [''clean.sql'', ''broken.sql'', ''orders.sql''], ignore_dotless_table = False, dialect = ''ansi''\<rparr>))
     = [''clean.sql'', ''broken.sql'']"
  using parse_failure_ends_run
      [of stub_env "\<lparr>filenames = [''clean.sql'', ''broken.sql'', ''orders.sql''], ignore_dotless_table = False, dialect = ''ansi''\<rparr>"
          "()" "[''clean.sql'']" "''broken.sql''" "[''orders.sql'']" "''SELECT (''" "ParseError ''unbalanced parenthesis''"]
  by (simp add: stub_env_def stub_read_text_def stub_parse_def dialect_default_def
      has_table_name_def file_check_def ansi_config_def)

subsection \<open>C4: the manifest cannot be loaded\<close>

text \<open>
  C4: when the manifest loader raises \<open>JsonOpenError\<close>, \<open>main\<close> prints the cause and
  returns 1, and this is all it does: no file is read and the grammar is not called.
\<close>

theorem manifest_failure_exits_1:
  "get_dbt_manifest env a = Inl (JsonOpenError cause)
   \<Longrightarrow> main env a = (Inr 1, [Print (''Unable to load manifest file ('' @ cause @ '')'')])
       \<and> files_read (snd (main env a)) = []
       \<and> grammar_calls (snd (main env a)) = []"
  by (simp add: main_def)

theorem manifest_failure_exits_1_witness:
  "main stub_env_no_manifest \<lparr>filenames = [''orders.sql'', ''broken.sql''], ignore_dotless_table = False, dialect = ''ansi''\<rparr>
     = (Inr 1, [Print ''Unable to load manifest file (No such file or directory)''])
   \<and> files_read (snd (main stub_env_no_manifest \<lparr>filenames = [''orders.sql'', ''broken.sql''], ignore_dotless_table = False, dialect = ''ansi''\<rparr>)) = []"
  using manifest_failure_exits_1
    [of stub_env_no_manifest
        "\<lparr>filenames = [''orders.sql'', ''broken.sql''], ignore_dotless_table = False, dialect = ''ansi''\<rparr>"
        "''No such file or directory''"]
  by (simp add: stub_env_no_manifest_def stub_env_def)

subsection \<open>C5: normalising twice\<close>

text \<open>
  C5 says that \<open>normalize (normalize s) = normalize s\<close> for every \<open>s\<close>. Each padding
  function adds its blanks again at every pass, so a text with a parenthesis grows.
\<close>

theorem normalize_not_idempotent:
  "normalize (normalize ''f(x)'') \<noteq> normalize ''f(x)''
   \<and> normalize ''f(x)'' = ''f ( x ) ''
   \<and> normalize (normalize ''f(x)'') = ''f  (  x  )  ''"
  by (simp add: norm_defs)

text \<open>
  C5, amended: \<open>normalize (normalize s) = normalize s\<close> for every \<open>s\<close> that contains
  no parenthesis, no brace and no \<open>/*\<close>. (Line comments are allowed: the first pass
  removes them and the second finds nothing to do.)
\<close>

theorem normalize_idempotent_without_brackets:
  assumes "\<forall>c\<in>set s. c \<notin> {CHR ''('', CHR '')'', CHR ''{'', CHR ''}''}"
    and "\<not> sublist ''/*'' s"
  shows "normalize (normalize s) = normalize s"
proof -
  let ?t = "replace_comments s"
  from assms(1) have s: "CHR ''('' \<notin> set s" "CHR '')'' \<notin> set s" "CHR ''{'' \<notin> set s" "CHR ''}'' \<notin> set s"
    by auto
  then have t: "CHR ''('' \<notin> set ?t" "CHR '')'' \<notin> set ?t" "CHR ''{'' \<notin> set ?t" "CHR ''}'' \<notin> set ?t"
    using replace_comments_set[of s] by blast+
  have "\<not> sublist ''/*'' ?t"
    using sub_comments_no_block[of "[]" s] assms(2) s(3) by (simp add: replace_comments_def)
  moreover have "\<not> sublist ''--'' ?t"
    using sub_comments_no_dashes[of "[]" s] by (simp add: replace_comments_def)
  ultimately have "replace_comments ?t = ?t"
    using sub_comments_plain_id[of "[]" ?t] t(3) by (simp add: replace_comments_def)
  then show ?thesis
    by (simp add: normalize_plain[OF s] normalize_plain[OF t])
qed

theorem normalize_idempotent_without_brackets_witness:
  "normalize (normalize (''SELECT 1 -- one'' @ [CHR 0x0A] @ ''FROM t'')) = ''SELECT 1'' @ [CHR 0x0A] @ ''FROM t''
   \<and> normalize (''SELECT 1 -- one'' @ [CHR 0x0A] @ ''FROM t'') = ''SELECT 1'' @ [CHR 0x0A] @ ''FROM t''"
  using normalize_idempotent_without_brackets[of "''SELECT 1 -- one'' @ [CHR 0x0A] @ ''FROM t''"]
  by (simp add: norm_defs sublist_Cons_right)

subsection \<open>C6: what comment removal leaves\<close>

text \<open>
  C6 says that the output of comment removal contains no comment delimiter, neither those
  of a block comment nor \<open>--\<close>, and that the order of what remains is unchanged. The
  expression matches only the body of a block comment, between the lookbehind and the
  lookahead: in \<open>SELECT /* all */ 1\<close> the body is deleted and both delimiters are still
  in the output.
\<close>

theorem replace_comments_leaves_delimiters:
  "replace_comments ''SELECT /* all */ 1'' = ''SELECT /**/ 1''
   \<and> sublist ''/*'' (replace_comments ''SELECT /* all */ 1'')
   \<and> sublist ''*/'' (replace_comments ''SELECT /* all */ 1'')"
  by (simp add: norm_defs sublist_Cons_right)

text \<open>
  C6, amended: for every string, the output of \<open>replace_comments\<close> contains no \<open>--\<close>,
  and it is a subsequence of the input: characters are deleted, none is added or moved,
  so what remains keeps its order. Nothing is said of the delimiters of block comments.
\<close>

theorem replace_comments_no_dashes_keeps_order:
  "\<not> sublist ''--'' (replace_comments s) \<and> subseq (replace_comments s) s"
  unfolding replace_comments_def
  by (simp add: sub_comments_no_dashes sub_comments_subseq)

subsection \<open>C7: the text the grammar receives\<close>

text \<open>
  C7 says that the text of a file is normalised before it is handed to the grammar. On the
  code the grammar receives the text as it was read: for a file with a parenthesis the
  two differ.
\<close>

theorem grammar_receives_text_not_normalized:
  "map fst (grammar_calls (snd (main stub_env \<lparr>filenames = [''count.sql''], ignore_dotless_table = False, dialect = ''ansi''\<rparr>)))
     = [''SELECT count(*) FROM t'']
   \<and> normalize ''SELECT count(*) FROM t'' = ''SELECT count ( * )  FROM t''"
  by (simp add: stub_defs normalize_def replace_comments_def add_space_to_parenthesis_def
      add_space_to_braces_def add_space_to_source_ref_def opener_def last2_def)

text \<open>
  C7, amended: the texts handed to the grammar are the texts of the input files exactly
  as read, in the order of the files, with no normalisation between reading and parsing:
  they are always an initial part of the list of the files' texts, and the whole list
  when the manifest is loaded and \<open>main\<close> returns a status.
\<close>

theorem grammar_receives_raw_text:
  "prefix (map (\<lambda>c. Inr (fst c)) (grammar_calls (snd (main env a)))) (map (read_text env) (filenames a))
   \<and> (get_dbt_manifest env a = Inr m \<and> fst (main env a) = Inr s
        \<longrightarrow> map (\<lambda>c. Inr (fst c)) (grammar_calls (snd (main env a))) = map (read_text env) (filenames a))"
proof -
  let ?calls = "map (\<lambda>c. Inr (fst c)) (grammar_calls (snd (main env a)))"
  let ?texts = "map (read_text env) (filenames a)"
  from main_trace_cases[of env a] consider
      (nomanifest) cause where "get_dbt_manifest env a = Inl cause" "grammar_calls (snd (main env a)) = []"
    | (ok) "fst (main env a) = Inr 0" "\<forall>g\<in>set (filenames a). \<not> isl (fst (file_check env a g))"
        "snd (main env a) = concat (map (\<lambda>g. snd (file_check env a g)) (filenames a)) @ [Track_hook_event 0]"
    | (raise) pre f post e where "filenames a = pre @ f # post"
        "\<forall>g\<in>set pre. \<not> isl (fst (file_check env a g))"
        "main env a = (Inl e, concat (map (\<lambda>g. snd (file_check env a g)) (pre @ [f])))"
    by blast
  then show ?thesis
  proof cases
    case nomanifest
    then show ?thesis by simp
  next
    case ok
    then have "?calls = ?texts"
      by (simp add: grammar_calls_append grammar_calls_checks)
    then show ?thesis by simp
  next
    case raise
    have "?calls = map (read_text env) pre @ (if isl (read_text env f) then [] else [read_text env f])"
      using raise(2)
      by (simp add: raise(3) grammar_calls_append grammar_calls_checks grammar_calls_file_check)
    then have "prefix ?calls ?texts"
      by (simp add: raise(1))
    then show ?thesis by (simp add: raise(3))
  qed
qed

theorem grammar_receives_raw_text_witness:
  "map (\<lambda>c. Inr (fst c)) (grammar_calls (snd (main stub_env \<lparr>filenames = [''count.sql'', ''clean.sql''], ignore_dotless_table = False, dialect = ''ansi''\<rparr>)))
     = [Inr ''SELECT count(*) FROM t'', Inr ''SELECT 1'' :: exn + string]"
  using grammar_receives_raw_text
      [of stub_env "\<lparr>filenames = [''count.sql'', ''clean.sql''], ignore_dotless_table = False, dialect = ''ansi''\<rparr>" "()" 0]
  by (simp add: stub_defs)

subsection \<open>C8: the dialect\<close>

text \<open>
  C8: the grammar is configured with the value of \<open>--dialect\<close>. \<open>main\<close> does not pass
  \<open>args.dialect\<close> to \<open>has_table_name\<close>, so with \<open>--dialect postgres\<close> the grammar is
  still configured for "ansi".
\<close>

theorem dialect_option_ignored:
  "grammar_calls (snd (main stub_env \<lparr>filenames = [''orders.sql''], ignore_dotless_table = False, dialect = ''postgres''\<rparr>))
     = [(''SELECT * FROM raw.orders'', \<lparr>override_dialect = Some ''ansi'', override_templater = ''dbt''\<rparr>)]"
  by (simp add: stub_defs)

subsection \<open>C9: the dotless flag\<close>

text \<open>
  C9: when \<open>--ignore-dotless-table\<close> is set, no single-part identifier (a name without
  a dot) among a file's table references is reported as a violation: no diagnostic of
  \<open>main\<close> names a set of tables that holds one, and a run that loaded the manifest and
  returns a status returns 0. (This holds because \<open>main\<close> prints a diagnostic for no file
  at all, the status of \<open>has_table_name\<close> being 0 always; \<open>has_table_name\<close> itself
  never reads \<open>dotless\<close>.)
\<close>

theorem dotless_not_reported:
  assumes "ignore_dotless_table a" and "t \<in> T" and "CHR ''.'' \<notin> set t"
  shows "Print_tables f T \<notin> set (snd (main env a))
       \<and> (get_dbt_manifest env a = Inr m \<and> fst (main env a) = Inr s \<longrightarrow> s = 0)"
  using main_no_print[of f T env a] main_status_is_0[of env a m s] by blast

theorem dotless_not_reported_witness:
  "Print_tables ''dotless.sql'' {''orders''}
     \<notin> set (snd (main stub_env \<lparr>filenames = [''dotless.sql''], ignore_dotless_table = True, dialect = ''ansi''\<rparr>))
   \<and> main stub_env \<lparr>filenames = [''dotless.sql''], ignore_dotless_table = True, dialect = ''ansi''\<rparr>
     = (Inr 0,
        [Read_text ''dotless.sql'',
         Sqlfluff_parse ''SELECT * FROM orders''
           \<lparr>override_dialect = Some ''ansi'', override_templater = ''dbt''\<rparr>,
         Track_hook_event 0])"
  using dotless_not_reported
      [of "\<lparr>filenames = [''dotless.sql''], ignore_dotless_table = True, dialect = ''ansi''\<rparr>"
          "''orders''" "{''orders''}" "''dotless.sql''" stub_env "()" 0]
  by (simp add: stub_defs)

subsection \<open>C10: what has_table_name returns\<close>

text \<open>
  C10: whenever the grammar parses the text, \<open>has_table_name\<close> returns the status 0 and
  the set of all table references of the parse result, whatever \<open>dotless\<close> is.
\<close>

theorem has_table_name_returns_grammar_set:
  "sqlfluff_parse env sql \<lparr>override_dialect = d, override_templater = ''dbt''\<rparr> = Inr tree
   \<Longrightarrow> fst (has_table_name env sql filename dotless d)
         = Inr (0, set (get_table_references env tree))"
  by (simp add: has_table_name_def)

theorem has_table_name_returns_grammar_set_witness:
  "fst (has_table_name stub_env ''SELECT * FROM raw.orders'' ''orders.sql'' (Some False) (Some ''snowflake''))
     = Inr (0, {''raw.orders''})
   \<and> fst (has_table_name stub_env ''SELECT * FROM raw.orders'' ''orders.sql'' (Some True) (Some ''snowflake''))
     = Inr (0, {''raw.orders''})"
  using has_table_name_returns_grammar_set
      [of stub_env "''SELECT * FROM raw.orders''" "Some ''snowflake''" "[''raw.orders'']" "''orders.sql''" "Some False"]
    has_table_name_returns_grammar_set
      [of stub_env "''SELECT * FROM raw.orders''" "Some ''snowflake''" "[''raw.orders'']" "''orders.sql''" "Some True"]
  by (simp add: stub_env_def stub_parse_def)

end
